theory Spec2Isabelle
  imports Complex_Main "HOL-Library.Sublist"
begin

section \<open>The live-attendance page (src/pages/LiveAttendance.tsx)\<close>

text \<open>
  The page is a React component. Its \<^verbatim>\<open>useState\<close> cells are the fields of one record,
  every handler is a function from the state to the new state together with the effects it
  issues (console lines, toasts, the rows handed to \<^verbatim>\<open>supabase.from(...).insert\<close>), and
  whatever the outside world answers (the rows of the \<^verbatim>\<open>students\<close> table, the outcome of
  loading the face-api models, the signed-in user, the clock, the error of the insert) is an
  argument of the handler that consumes it.
\<close>

subsection \<open>Data\<close>

text \<open>The union type \<^verbatim>\<open>"present" | "sleepy" | "absent"\<close> and the string it is at run time.\<close>

datatype att_status = Present | Sleepy | Absent

fun status_str :: "att_status \<Rightarrow> string" where
  "status_str Present = ''present''"
| "status_str Sleepy = ''sleepy''"
| "status_str Absent = ''absent''"

text \<open>\<^verbatim>\<open>interface Student\<close>; the field \<^verbatim>\<open>id\<close> is written \<open>id_s\<close>.\<close>

record student =
  id_s :: string
  full_name :: string
  roll_number :: string
  photo_url :: "string option"

text \<open>\<^verbatim>\<open>interface AttendanceEntry\<close>.\<close>

record attendance_entry =
  studentId :: string
  studentName :: string
  rollNumber :: string
  status :: att_status

text \<open>
  The rows given to \<^verbatim>\<open>insert\<close> are object literals: a list of key and value in the order
  the literal writes them. A number is an integer or \<^verbatim>\<open>NaN\<close> (what \<^verbatim>\<open>parseInt\<close> can return).
\<close>

datatype jsval = JStr string | JNum int | JNaN

type_synonym jsobj = "(string \<times> jsval) list"

subsection \<open>The JavaScript built-ins the page calls\<close>

text \<open>
  Strings are lists of 8-bit characters, so the built-ins are modelled on ASCII text; the
  white space \<^verbatim>\<open>parseInt\<close> skips is the ASCII part of it.
\<close>

definition is_space :: "char \<Rightarrow> bool" where
  "is_space c = (c \<in> set [CHR 0x09, CHR 0x0A, CHR 0x0B, CHR 0x0C, CHR 0x0D, CHR '' ''])"

definition digit_val :: "char \<Rightarrow> nat option" where
  "digit_val c =
     (let n = (of_char c :: nat) in
      if 48 \<le> n \<and> n \<le> 57 then Some (n - 48)
      else if 97 \<le> n \<and> n \<le> 122 then Some (n - 87)
      else if 65 \<le> n \<and> n \<le> 90 then Some (n - 55)
      else None)"

definition is_digit :: "nat \<Rightarrow> char \<Rightarrow> bool" where
  "is_digit radix c = (case digit_val c of None \<Rightarrow> False | Some d \<Rightarrow> d < radix)"

definition digits_value :: "nat \<Rightarrow> string \<Rightarrow> nat" where
  "digits_value radix ds = fold (\<lambda>c acc. acc * radix + (case digit_val c of None \<Rightarrow> 0 | Some d \<Rightarrow> d)) ds 0"

text \<open>
  \<^verbatim>\<open>parseInt(s)\<close> with no radix: leading white space, an optional sign, an optional
  \<^verbatim>\<open>0x\<close> prefix (radix 16, else 10), then the longest run of digits; \<open>None\<close> is \<^verbatim>\<open>NaN\<close>.
  Integers are exact here (JavaScript rounds beyond \<open>2^53\<close>).
\<close>

definition parseInt :: "string \<Rightarrow> int option" where
  "parseInt str =
     (let s1 = dropWhile is_space str;
          neg = (s1 \<noteq> [] \<and> hd s1 = CHR ''-'');
          s2 = (if s1 \<noteq> [] \<and> (hd s1 = CHR ''-'' \<or> hd s1 = CHR ''+'') then tl s1 else s1);
          hex = (prefix ''0x'' s2 \<or> prefix ''0X'' s2);
          radix = (if hex then 16 else 10);
          s3 = (if hex then drop 2 s2 else s2);
          ds = takeWhile (is_digit radix) s3
      in if ds = [] then None
         else Some ((if neg then - 1 else 1) * int (digits_value radix ds)))"

text \<open>\<^verbatim>\<open>n.toString()\<close> of an integer, and a number inside a template literal.\<close>

fun dec_nat :: "nat \<Rightarrow> string" where
  "dec_nat n =
     (if n < 10 then [''0123456789'' ! n]
      else dec_nat (n div 10) @ [''0123456789'' ! (n mod 10)])"

definition toString :: "int \<Rightarrow> string" where
  "toString i = (if i < 0 then CHR ''-'' # dec_nat (nat (- i)) else dec_nat (nat i))"

definition num_str :: "int option \<Rightarrow> string" where
  "num_str n = (case n of None \<Rightarrow> ''NaN'' | Some i \<Rightarrow> toString i)"

definition num_val :: "int option \<Rightarrow> jsval" where
  "num_val n = (case n of None \<Rightarrow> JNaN | Some i \<Rightarrow> JNum i)"

text \<open>\<^verbatim>\<open>hay.includes(needle)\<close>.\<close>

fun includes_str :: "string \<Rightarrow> string \<Rightarrow> bool" where
  "includes_str [] needle = (needle = [])"
| "includes_str (h # hs) needle = (prefix needle (h # hs) \<or> includes_str hs needle)"

text \<open>\<^verbatim>\<open>s.split("T")[0]\<close>: the text before the first \<^verbatim>\<open>T\<close>, all of it when there is none.\<close>

definition split_T_first :: "string \<Rightarrow> string" where
  "split_T_first s = takeWhile (\<lambda>c. c \<noteq> CHR ''T'') s"

subsection \<open>State, environment and effects\<close>

record state =
  cameraOn :: bool
  selectedPeriod :: string
  period8Free :: bool
  students :: "student list"
  attendance :: "attendance_entry list"
  saving :: bool
  faceApiLoaded :: bool

text \<open>The initial values of the \<^verbatim>\<open>useState\<close> calls.\<close>

definition initial :: state where
  "initial =
     \<lparr>cameraOn = False, selectedPeriod = ''1'', period8Free = False, students = [],
      attendance = [], saving = False, faceApiLoaded = False\<rparr>"

text \<open>
  What \<^verbatim>\<open>saveAttendance\<close> reads from outside the component: the id of the signed-in user
  (\<open>None\<close> when \<^verbatim>\<open>user\<close> is null), the text of \<^verbatim>\<open>new Date().toISOString()\<close>, and the
  \<^verbatim>\<open>error.message\<close> of the insert's answer (\<open>None\<close> when \<^verbatim>\<open>error\<close> is null).
\<close>

record save_env =
  user :: "string option"
  now_iso :: string
  insert_error :: "string option"

datatype effect =
    ConsoleLog string
  | ToastInfo string
  | ToastError string
  | ToastSuccess string
  | Insert string "jsobj list"

text \<open>How the dynamic import and \<^verbatim>\<open>Promise.all\<close> of \<^verbatim>\<open>loadModels\<close> can end.\<close>

datatype load_outcome = Loaded | ModelsFailed | ImportFailed

subsection \<open>The handlers\<close>

definition fetchStudents :: "student list option \<Rightarrow> state \<Rightarrow> state" where
  "fetchStudents data s =
     (case data of
        None \<Rightarrow> s
      | Some d \<Rightarrow>
          s\<lparr>students := d,
            attendance :=
              map (\<lambda>st. \<lparr>studentId = id_s st, studentName = full_name st,
                          rollNumber = roll_number st, status = Absent\<rparr>) d\<rparr>)"

definition loadModels :: "load_outcome \<Rightarrow> state \<Rightarrow> state \<times> effect list" where
  "loadModels outcome s =
     (case outcome of
        Loaded \<Rightarrow> (s\<lparr>faceApiLoaded := True\<rparr>, [])
      | ModelsFailed \<Rightarrow> (s, [ConsoleLog ''Face-api models not available, using manual mode''])
      | ImportFailed \<Rightarrow> (s, [ConsoleLog ''Face-api not available, using manual mode'']))"

definition updateStatus :: "string \<Rightarrow> att_status \<Rightarrow> state \<Rightarrow> state" where
  "updateStatus sid st s =
     s\<lparr>attendance :=
         map (\<lambda>a. if studentId a = sid then a\<lparr>status := st\<rparr> else a) (attendance s)\<rparr>"

definition markAllPresent :: "state \<Rightarrow> state" where
  "markAllPresent s = s\<lparr>attendance := map (\<lambda>a. a\<lparr>status := Present\<rparr>) (attendance s)\<rparr>"

text \<open>The object literal built for one entry, and the rows of one save.\<close>

definition record_of :: "string \<Rightarrow> string \<Rightarrow> int option \<Rightarrow> attendance_entry \<Rightarrow> jsobj" where
  "record_of uid today period a =
     [(''student_id'', JStr (studentId a)),
      (''date'', JStr today),
      (''period'', num_val period),
      (''status'', JStr (status_str (status a))),
      (''verified_by'', JStr uid)]"

definition records_of :: "string \<Rightarrow> string \<Rightarrow> int option \<Rightarrow> attendance_entry list \<Rightarrow> jsobj list" where
  "records_of uid today period entries = map (record_of uid today period) entries"

text \<open>The toast that follows the insert's answer.\<close>

definition insert_toast :: "string option \<Rightarrow> int option \<Rightarrow> effect" where
  "insert_toast err period =
     (case err of
        Some msg \<Rightarrow>
          if includes_str msg ''duplicate''
          then ToastError ''Attendance already recorded for this period today''
          else ToastError msg
      | None \<Rightarrow> ToastSuccess (''Attendance saved for Period '' @ num_str period @ ''!''))"

text \<open>
  \<^verbatim>\<open>saveAttendance\<close>, from the click to the last \<^verbatim>\<open>setSaving(false)\<close>. The rows are built
  from the state of the click, before the insert is awaited, and nothing after the await
  writes any cell but \<open>saving\<close>.
\<close>

definition saveAttendance :: "save_env \<Rightarrow> state \<Rightarrow> state \<times> effect list" where
  "saveAttendance env s =
     (case user env of
        None \<Rightarrow> (s, [])
      | Some uid \<Rightarrow>
          let s1 = s\<lparr>saving := True\<rparr>;
              period = parseInt (selectedPeriod s)
          in if period = Some 8 \<and> period8Free s
             then (s1\<lparr>saving := False\<rparr>,
                   [ToastInfo ''Period 8 is marked as free. No attendance recorded.''])
             else
               let today = split_T_first (now_iso env);
                   records = records_of uid today period (attendance s)
               in (s1\<lparr>saving := False\<rparr>,
                   [Insert ''attendance_records'' records,
                    insert_toast (insert_error env) period]))"

definition maxPeriods :: "state \<Rightarrow> nat" where
  "maxPeriods s = (if period8Free s then 7 else 8)"

text \<open>The values of the \<^verbatim>\<open>SelectItem\<close>s the period menu renders.\<close>

definition period_options :: "state \<Rightarrow> string list" where
  "period_options s = map (\<lambda>i. toString (int i + 1)) [0..<maxPeriods s]"

subsection \<open>Events of a session\<close>

datatype event =
    FetchStudents "student list option"
  | LoadModels load_outcome
  | UpdateStatus string att_status
  | MarkAllPresent
  | SaveAttendance save_env
  | SetSelectedPeriod string
  | SetPeriod8Free bool
  | ToggleCamera

fun step :: "event \<Rightarrow> state \<Rightarrow> state \<times> effect list" where
  "step (FetchStudents data) s = (fetchStudents data s, [])"
| "step (LoadModels outcome) s = loadModels outcome s"
| "step (UpdateStatus sid st) s = (updateStatus sid st s, [])"
| "step MarkAllPresent s = (markAllPresent s, [])"
| "step (SaveAttendance env) s = saveAttendance env s"
| "step (SetSelectedPeriod v) s = (s\<lparr>selectedPeriod := v\<rparr>, [])"
| "step (SetPeriod8Free b) s = (s\<lparr>period8Free := b\<rparr>, [])"
| "step ToggleCamera s = (s\<lparr>cameraOn := \<not> cameraOn s\<rparr>, [])"

text \<open>A run of events: the last state and every effect, in the order issued.\<close>

fun run :: "event list \<Rightarrow> state \<Rightarrow> state \<times> effect list" where
  "run [] s = (s, [])"
| "run (e # es) s =
     (let (s1, fx1) = step e s; (s2, fx2) = run es s1 in (s2, fx1 @ fx2))"

subsection \<open>What the statements below speak about\<close>

text \<open>The rolls handed to the sink and the console lines among the effects of a run.\<close>

fun inserted :: "effect list \<Rightarrow> jsobj list list" where
  "inserted [] = []"
| "inserted (Insert tbl roll # fx) = roll # inserted fx"
| "inserted (x # fx) = inserted fx"

fun console_logs :: "effect list \<Rightarrow> string list" where
  "console_logs [] = []"
| "console_logs (ConsoleLog msg # fx) = msg # console_logs fx"
| "console_logs (x # fx) = console_logs fx"

fun is_log :: "effect \<Rightarrow> bool" where
  "is_log (ConsoleLog msg) = True"
| "is_log x = False"

text \<open>Events by kind: an answer of the roster query that carries rows, the end of model
  loading, and the two handlers that write the status of student \<open>sid\<close>.\<close>

fun refetch :: "event \<Rightarrow> bool" where
  "refetch (FetchStudents (Some d)) = True"
| "refetch e = False"

fun is_load :: "event \<Rightarrow> bool" where
  "is_load (LoadModels outcome) = True"
| "is_load e = False"

fun sets_status :: "string \<Rightarrow> event \<Rightarrow> bool" where
  "sets_status sid (UpdateStatus x st) = (x = sid)"
| "sets_status sid MarkAllPresent = True"
| "sets_status sid e = False"


text \<open>
  The shape of a text: \<^verbatim>\<open>#\<close> in the pattern stands for one decimal digit, any other
  character for itself. \<open>iso_instant\<close> is what \<^verbatim>\<open>toISOString\<close> returns for a year of four
  digits, \<open>iso_date\<close> the calendar date of ISO 8601.
\<close>

fun matches :: "string \<Rightarrow> string \<Rightarrow> bool" where
  "matches [] [] = True"
| "matches (p # ps) (c # cs) = ((if p = CHR ''#'' then is_digit 10 c else c = p) \<and> matches ps cs)"
| "matches ps cs = False"

definition iso_date :: "string \<Rightarrow> bool" where
  "iso_date d = matches ''####-##-##'' d"

definition iso_instant :: "string \<Rightarrow> bool" where
  "iso_instant t = matches (''####-##-##'' @ ''T##:##:##.###Z'') t"

text \<open>
  What the environment can deliver in a state: the period menu only offers the values of
  its rendered items, and the clock text has the shape of \<^verbatim>\<open>toISOString\<close>. Every other
  event is possible in every state.
\<close>

fun possible :: "state \<Rightarrow> event \<Rightarrow> bool" where
  "possible s (SetSelectedPeriod v) = (v \<in> set (period_options s))"
| "possible s (SaveAttendance env) = iso_instant (now_iso env)"
| "possible s e = True"

fun possible_run :: "event list \<Rightarrow> state \<Rightarrow> bool" where
  "possible_run [] s = True"
| "possible_run (e # es) s = (possible s e \<and> possible_run es (fst (step e s)))"

text \<open>Sample inputs for the closed instances below.\<close>

abbreviation stA :: student where
  "stA \<equiv> \<lparr>id_s = ''s1'', full_name = ''Asha'', roll_number = ''1'', photo_url = None\<rparr>"

abbreviation stB :: student where
  "stB \<equiv> \<lparr>id_s = ''s2'', full_name = ''Bela'', roll_number = ''2'', photo_url = None\<rparr>"

abbreviation env_ok :: save_env where
  "env_ok \<equiv> \<lparr>user = Some ''u1'', now_iso = ''2024-05-01T09:55:00.000Z'', insert_error = None\<rparr>"

abbreviation env_dup :: save_env where
  "env_dup \<equiv>
     \<lparr>user = Some ''u1'', now_iso = ''2024-05-01T09:56:10.250Z'',
      insert_error = Some ''duplicate key value violates unique constraint''\<rparr>"

section \<open>The recognition core, from the specification\<close>

text \<open>
  The page above loads the face-api models and then only sets a flag: nothing in the web
  application tallies samples or compares descriptors. The recognition code of the
  repository is the Python tool (\<^verbatim>\<open>facerecognition.py\<close>) that the two READMEs name;
  its text is not part of what is verified here. The two components below are therefore
  written from the words of the specification, sections 3, 4.4 and 4.5.
\<close>

subsection \<open>Session aggregator\<close>

datatype engagement = Attentive | Drowsy

record tally =
  count_seen :: nat
  count_drowsy :: nat
  last_seen_timestamp :: nat

text \<open>A match result paired with its engagement sample; \<open>None\<close> is the unknown identity.\<close>

record sample =
  sample_identity :: "string option"
  engagement_label :: engagement
  timestamp :: nat

type_synonym session_state = "(string \<times> tally) list"

text \<open>
  Modelled from the spec: the session aggregator is not in the sources. "Initialized
  with every enrolled Identity present but zero-tally."
\<close>

definition open_session :: "string list \<Rightarrow> session_state" where
  "open_session ids =
     map (\<lambda>i. (i, \<lparr>count_seen = 0, count_drowsy = 0, last_seen_timestamp = 0\<rparr>)) ids"

text \<open>
  Modelled from the spec: the session aggregator is not in the sources. "Increment
  count_seen; if the engagement label is drowsy, increment count_drowsy; update
  last_seen_timestamp."
\<close>

definition credit :: "engagement \<Rightarrow> nat \<Rightarrow> tally \<Rightarrow> tally" where
  "credit l ts t =
     \<lparr>count_seen = count_seen t + 1,
      count_drowsy = (if l = Drowsy then count_drowsy t + 1 else count_drowsy t),
      last_seen_timestamp = ts\<rparr>"

text \<open>
  Modelled from the spec: the session aggregator is not in the sources. A sample of a
  known identity credits that identity's tally; "unknown MatchResults do not update any
  Identity's tally".
\<close>

definition observe :: "sample \<Rightarrow> session_state \<Rightarrow> session_state" where
  "observe x ss =
     (case sample_identity x of
        None \<Rightarrow> ss
      | Some i \<Rightarrow>
          map (\<lambda>(j, t). if j = i then (j, credit (engagement_label x) (timestamp x) t) else (j, t)) ss)"

text \<open>
  Modelled from the spec: the session aggregator is not in the sources. "An explicit
  reducer over an ordered stream of samples."
\<close>

definition aggregate :: "sample list \<Rightarrow> session_state \<Rightarrow> session_state" where
  "aggregate xs ss = fold observe xs ss"

text \<open>
  Modelled from the spec: the session aggregator is not in the sources. "If
  count_seen == 0, final status = absent. Else if count_drowsy / count_seen exceeds a
  drowsiness-majority fraction, final status = sleepy. Else final status = present."
  The fraction and the ratio are exact rationals in place of floating point; the manual
  override of section 4.5 is not part of this rule.
\<close>

definition final_status :: "rat \<Rightarrow> tally \<Rightarrow> att_status" where
  "final_status fr t =
     (if count_seen t = 0 then Absent
      else if fr < of_nat (count_drowsy t) / of_nat (count_seen t) then Sleepy
      else Present)"

text \<open>
  Modelled from the spec: the configuration of the aggregator is not in the sources.
  "A drowsiness-majority fraction (configurable, default > 0.5)": the default is one half,
  and the rule is strict.
\<close>

definition default_fraction :: rat where
  "default_fraction = 1 / 2"

text \<open>
  Modelled from the spec: the session aggregator is not in the sources. "At period
  close, for every Identity", its final status.
\<close>

definition period_close :: "rat \<Rightarrow> session_state \<Rightarrow> (string \<times> att_status) list" where
  "period_close fr ss = map (\<lambda>(i, t). (i, final_status fr t)) ss"

text \<open>How often a stream shows identity \<open>i\<close>, and how often drowsy.\<close>

definition seen_count :: "string \<Rightarrow> sample list \<Rightarrow> nat" where
  "seen_count i xs = length (filter (\<lambda>x. sample_identity x = Some i) xs)"

definition drowsy_count :: "string \<Rightarrow> sample list \<Rightarrow> nat" where
  "drowsy_count i xs =
     length (filter (\<lambda>x. sample_identity x = Some i \<and> engagement_label x = Drowsy) xs)"

subsection \<open>Matcher\<close>

datatype match_result = Known string | Unknown

text \<open>The gallery: each identity's id with its reference embeddings. The distance between
  a descriptor and an embedding is a parameter ("Euclidean or cosine, fixed consistently"),
  with real values in place of floating point.\<close>

type_synonym 'e gallery = "(string \<times> 'e list) list"

text \<open>
  Modelled from the spec: the matcher is not in the sources. "If an Identity has
  multiple reference embeddings, use the minimum distance across them"; an identity
  without any embedding has no distance.
\<close>

definition identity_distance :: "('d \<Rightarrow> 'e \<Rightarrow> real) \<Rightarrow> 'd \<Rightarrow> 'e list \<Rightarrow> real option" where
  "identity_distance distance d es =
     (case es of [] \<Rightarrow> None | e # es' \<Rightarrow> Some (fold (\<lambda>x m. min (distance d x) m) es' (distance d e)))"

text \<open>
  Modelled from the spec: the matcher is not in the sources. "Compute distance between
  the input descriptor and every Identity's reference embedding(s)."
\<close>

definition scored :: "('d \<Rightarrow> 'e \<Rightarrow> real) \<Rightarrow> 'e gallery \<Rightarrow> 'd \<Rightarrow> (string \<times> real) list" where
  "scored distance g d =
     concat (map (\<lambda>(i, es). case identity_distance distance d es of None \<Rightarrow> [] | Some m \<Rightarrow> [(i, m)]) g)"

text \<open>
  Modelled from the spec: the matcher is not in the sources. "Select the Identity with
  the globally minimum distance; if that minimum exceeds a configured match threshold,
  the result is unknown. Ties (multiple identities within epsilon of the same minimum
  distance) resolve to unknown rather than arbitrary pick."
\<close>

definition matcher ::
  "('d \<Rightarrow> 'e \<Rightarrow> real) \<Rightarrow> real \<Rightarrow> real \<Rightarrow> 'e gallery \<Rightarrow> 'd \<Rightarrow> match_result" where
  "matcher distance threshold eps g d =
     (case scored distance g d of
        [] \<Rightarrow> Unknown
      | (i0, m0) # rest \<Rightarrow>
          let best = fold (\<lambda>(i, m) b. min m b) rest m0 in
          if threshold < best then Unknown
          else (case filter (\<lambda>(i, m). m \<le> best + eps) ((i0, m0) # rest) of
                  [(i, m)] \<Rightarrow> Known i
                | _ \<Rightarrow> Unknown))"

text \<open>The identities a descriptor is within the threshold of.\<close>

definition within_threshold ::
  "('d \<Rightarrow> 'e \<Rightarrow> real) \<Rightarrow> real \<Rightarrow> 'e gallery \<Rightarrow> 'd \<Rightarrow> string list" where
  "within_threshold distance threshold g d =
     map fst (filter (\<lambda>(i, m). m \<le> threshold) (scored distance g d))"

text \<open>A sample distance: descriptors and embeddings are points of the real line.\<close>

abbreviation line_dist :: "real \<Rightarrow> real \<Rightarrow> real" where
  "line_dist d e \<equiv> \<bar>d - e\<bar>"

section \<open>Properties of the page\<close>

subsection \<open>Runs\<close>

lemma run_invariant:
  assumes stepI: "\<And>e s. ok e \<Longrightarrow> I s \<Longrightarrow> I (fst (step e s))"
      and stepR: "\<And>e s x. ok e \<Longrightarrow> I s \<Longrightarrow> x \<in> set (snd (step e s)) \<Longrightarrow> R x"
      and oks: "list_all ok evs" and I0: "I s"
  shows "I (fst (run evs s)) \<and> list_all R (snd (run evs s))"
  using oks I0
proof (induction evs arbitrary: s)
  case Nil
  then show ?case by simp
next
  case (Cons e es)
  from Cons.prems have e: "ok e" and es: "list_all ok es" by simp_all
  have I1: "I (fst (step e s))" using stepI [OF e Cons.prems(2)] .
  have R1: "list_all R (snd (step e s))"
    using stepR [OF e Cons.prems(2)] by (simp add: list_all_iff)
  from Cons.IH [OF es I1] R1 show ?case
    by (auto split: prod.splits)
qed

lemma inserted_mem: "roll \<in> set (inserted fx) \<longleftrightarrow> (\<exists>tbl. Insert tbl roll \<in> set fx)"
  by (induction fx rule: inserted.induct) auto

subsection \<open>What each handler leaves alone\<close>

lemma updateStatus_ids [simp]:
  "map studentId (attendance (updateStatus sid st s)) = map studentId (attendance s)"
proof -
  have "map studentId (map (\<lambda>a. if studentId a = sid then a\<lparr>status := st\<rparr> else a) xs)
        = map studentId xs" for xs
    by (induction xs) auto
  then show ?thesis by (simp add: updateStatus_def)
qed

lemma markAllPresent_ids [simp]:
  "map studentId (attendance (markAllPresent s)) = map studentId (attendance s)"
  by (simp add: markAllPresent_def comp_def)

lemma fetchStudents_ids [simp]:
  "map studentId (attendance (fetchStudents (Some d) s)) = map id_s d"
  by (simp add: fetchStudents_def comp_def)

lemma students_frame [simp]:
  "students (updateStatus sid st s) = students s"
  "students (markAllPresent s) = students s"
  "students (fst (loadModels outcome s)) = students s"
  "students (fst (saveAttendance env s)) = students s"
  "students (fetchStudents (Some d) s) = d"
  "students (fetchStudents None s) = students s"
  by (simp_all add: updateStatus_def markAllPresent_def loadModels_def saveAttendance_def
      fetchStudents_def Let_def split: load_outcome.splits option.splits)

lemma attendance_frame [simp]:
  "attendance (fst (loadModels outcome s)) = attendance s"
  "attendance (fst (saveAttendance env s)) = attendance s"
  "attendance (fetchStudents None s) = attendance s"
  by (simp_all add: loadModels_def saveAttendance_def
      fetchStudents_def Let_def split: load_outcome.splits option.splits)


lemma save_effects:
  "x \<in> set (snd (saveAttendance env s)) \<Longrightarrow> x = Insert tbl roll \<Longrightarrow>
   \<exists>uid. user env = Some uid \<and> tbl = ''attendance_records'' \<and>
     \<not> (parseInt (selectedPeriod s) = Some 8 \<and> period8Free s) \<and>
     roll = records_of uid (split_T_first (now_iso env)) (parseInt (selectedPeriod s)) (attendance s)"
  by (auto simp: saveAttendance_def Let_def insert_toast_def split: option.splits if_splits)

lemma step_insert:
  assumes "Insert tbl roll \<in> set (snd (step e s))"
  shows "\<exists>env uid. e = SaveAttendance env \<and> user env = Some uid \<and>
     \<not> (parseInt (selectedPeriod s) = Some 8 \<and> period8Free s) \<and>
     roll = records_of uid (split_T_first (now_iso env)) (parseInt (selectedPeriod s)) (attendance s)"
proof (cases e)
  case (SaveAttendance env)
  with assms save_effects [of "Insert tbl roll" env s tbl roll] show ?thesis by auto
next
  case (LoadModels outcome)
  with assms show ?thesis by (cases outcome) (simp_all add: loadModels_def)
qed (use assms in simp_all)

subsection \<open>Roll completeness\<close>







subsection \<open>A student nobody marks stays absent\<close>

lemma records_of_status:
  assumes "r \<in> set (records_of uid today period entries)"
      and "map_of r ''student_id'' = Some (JStr sid)"
  shows "\<exists>a \<in> set entries. studentId a = sid \<and> map_of r ''status'' = Some (JStr (status_str (status a)))"
  using assms by (auto simp: records_of_def record_of_def)

lemma untouched_step:
  assumes "\<not> sets_status sid e"
      and "\<forall>a \<in> set (attendance s). studentId a = sid \<longrightarrow> status a = Absent"
  shows "\<forall>a \<in> set (attendance (fst (step e s))). studentId a = sid \<longrightarrow> status a = Absent"
proof (cases e)
  case (FetchStudents data)
  with assms show ?thesis by (cases data) (auto simp: fetchStudents_def)
next
  case (UpdateStatus x st)
  with assms show ?thesis by (auto simp: updateStatus_def)
qed (use assms in simp_all)

text \<open>
  Claim C2. The answer of the roster query gives every entry the status absent. If none of
  the events that follow sets the status of student \<open>sid\<close> (no per-student update for
  \<open>sid\<close>, no mark-all-present), every record for \<open>sid\<close> in every roll a save hands to the
  sink carries the status \<^verbatim>\<open>absent\<close>.
\<close>

theorem unseen_student_absent:
  assumes "list_all (\<lambda>e. \<not> sets_status sid e) evs"
  shows "list_all (\<lambda>a. status a = Absent) (attendance (fetchStudents (Some data) s0)) \<and>
     (\<forall>roll \<in> set (inserted (snd (run evs (fetchStudents (Some data) s0)))).
        \<forall>r \<in> set roll. map_of r ''student_id'' = Some (JStr sid) \<longrightarrow>
          map_of r ''status'' = Some (JStr ''absent''))"
proof -
  let ?I = "\<lambda>s. \<forall>a \<in> set (attendance s). studentId a = sid \<longrightarrow> status a = Absent"
  let ?R = "\<lambda>x. \<forall>tbl roll. x = Insert tbl roll \<longrightarrow>
       (\<forall>r \<in> set roll. map_of r ''student_id'' = Some (JStr sid) \<longrightarrow>
          map_of r ''status'' = Some (JStr ''absent''))"
  have init: "list_all (\<lambda>a. status a = Absent) (attendance (fetchStudents (Some data) s0))"
    by (simp add: fetchStudents_def list_all_iff)
  have "?I (fst (run evs (fetchStudents (Some data) s0))) \<and>
        list_all ?R (snd (run evs (fetchStudents (Some data) s0)))"
  proof (rule run_invariant [where ok = "\<lambda>e. \<not> sets_status sid e" and I = ?I and R = ?R])
    show "?I (fst (step e s))" if "\<not> sets_status sid e" "?I s" for e s
      using untouched_step [OF that] .
    show "?R x" if "\<not> sets_status sid e" "?I s" "x \<in> set (snd (step e s))" for e s x
    proof (intro allI impI ballI)
      fix tbl roll r
      assume x: "x = Insert tbl roll" and r: "r \<in> set roll"
        and sid: "map_of r ''student_id'' = Some (JStr sid)"
      from that(3) x have "Insert tbl roll \<in> set (snd (step e s))" by simp
      from step_insert [OF this] obtain uid today period
        where "roll = records_of uid today period (attendance s)" by blast
      with r sid records_of_status obtain a where "a \<in> set (attendance s)" "studentId a = sid"
        "map_of r ''status'' = Some (JStr (status_str (status a)))" by blast
      with that(2) show "map_of r ''status'' = Some (JStr ''absent'')" by simp
    qed
    show "list_all (\<lambda>e. \<not> sets_status sid e) evs" by (rule assms)
    show "?I (fetchStudents (Some data) s0)" using init by (simp add: list_all_iff)
  qed
  then have "list_all ?R (snd (run evs (fetchStudents (Some data) s0)))" by blast
  then have "\<forall>roll \<in> set (inserted (snd (run evs (fetchStudents (Some data) s0)))).
        \<forall>r \<in> set roll. map_of r ''student_id'' = Some (JStr sid) \<longrightarrow>
          map_of r ''status'' = Some (JStr ''absent'')"
    by (auto simp: inserted_mem list_all_iff)
  with init show ?thesis by blast
qed

theorem unseen_student_absent_witness:
  "list_all (\<lambda>e. \<not> sets_status ''s2'' e)
     [UpdateStatus ''s1'' Present, LoadModels Loaded, ToggleCamera, SaveAttendance env_ok] \<and>
   inserted (snd (run [UpdateStatus ''s1'' Present, LoadModels Loaded, ToggleCamera, SaveAttendance env_ok]
      (fetchStudents (Some [stA, stB]) initial))) =
     [[[(''student_id'', JStr ''s1''), (''date'', JStr ''2024-05-01''), (''period'', JNum 1),
        (''status'', JStr ''present''), (''verified_by'', JStr ''u1'')],
       [(''student_id'', JStr ''s2''), (''date'', JStr ''2024-05-01''), (''period'', JNum 1),
        (''status'', JStr ''absent''), (''verified_by'', JStr ''u1'')]]] \<and>
   list_all (\<lambda>roll. list_all (\<lambda>r. map_of r ''student_id'' \<noteq> Some (JStr ''s2'') \<or>
                                 map_of r ''status'' = Some (JStr ''absent'')) roll)
     (inserted (snd (run [UpdateStatus ''s1'' Present, LoadModels Loaded, ToggleCamera, SaveAttendance env_ok]
      (fetchStudents (Some [stA, stB]) initial))))"
proof -
  have h: "list_all (\<lambda>e. \<not> sets_status ''s2'' e)
     [UpdateStatus ''s1'' Present, LoadModels Loaded, ToggleCamera, SaveAttendance env_ok]" by simp
  have v: "inserted (snd (run [UpdateStatus ''s1'' Present, LoadModels Loaded, ToggleCamera, SaveAttendance env_ok]
      (fetchStudents (Some [stA, stB]) initial))) =
     [[[(''student_id'', JStr ''s1''), (''date'', JStr ''2024-05-01''), (''period'', JNum 1),
        (''status'', JStr ''present''), (''verified_by'', JStr ''u1'')],
       [(''student_id'', JStr ''s2''), (''date'', JStr ''2024-05-01''), (''period'', JNum 1),
        (''status'', JStr ''absent''), (''verified_by'', JStr ''u1'')]]]"
    by code_simp
  from unseen_student_absent [OF h, of "[stA, stB]" initial] h v show ?thesis
    by (auto simp: list_all_iff)
qed

subsection \<open>A free eighth period\<close>

lemma parseInt_8: "parseInt ''8'' = Some 8"
  by code_simp

text \<open>
  Claim C10. If the selected period parses to 8 and the period-8-is-free switch is on, a
  save hands no roll to the sink, leaves the attendance entries as they are and changes no
  cell of the state but \<open>saving\<close>; all it issues is the information toast (nothing at all
  when nobody is signed in).
\<close>

theorem free_period8_saves_nothing:
  assumes "parseInt (selectedPeriod s) = Some 8" and "period8Free s"
  shows "inserted (snd (saveAttendance env s)) = [] \<and>
     attendance (fst (saveAttendance env s)) = attendance s \<and>
     (fst (saveAttendance env s))\<lparr>saving := saving s\<rparr> = s \<and>
     snd (saveAttendance env s) =
       (if user env = None then []
        else [ToastInfo ''Period 8 is marked as free. No attendance recorded.''])"
  using assms by (cases "user env") (simp_all add: saveAttendance_def Let_def)

theorem free_period8_saves_nothing_witness:
  "fst (run [FetchStudents (Some [stA]), UpdateStatus ''s1'' Present, SetSelectedPeriod ''8'',
             SetPeriod8Free True] initial) =
     \<lparr>cameraOn = False, selectedPeriod = ''8'', period8Free = True, students = [stA],
      attendance = [\<lparr>studentId = ''s1'', studentName = ''Asha'', rollNumber = ''1'', status = Present\<rparr>],
      saving = False, faceApiLoaded = False\<rparr> \<and>
   parseInt ''8'' = Some 8 \<and>
   saveAttendance env_ok
     \<lparr>cameraOn = False, selectedPeriod = ''8'', period8Free = True, students = [stA],
      attendance = [\<lparr>studentId = ''s1'', studentName = ''Asha'', rollNumber = ''1'', status = Present\<rparr>],
      saving = False, faceApiLoaded = False\<rparr> =
     (\<lparr>cameraOn = False, selectedPeriod = ''8'', period8Free = True, students = [stA],
       attendance = [\<lparr>studentId = ''s1'', studentName = ''Asha'', rollNumber = ''1'', status = Present\<rparr>],
       saving = False, faceApiLoaded = False\<rparr>,
      [ToastInfo ''Period 8 is marked as free. No attendance recorded.''])"
proof -
  let ?s = "\<lparr>cameraOn = False, selectedPeriod = ''8'', period8Free = True, students = [stA],
      attendance = [\<lparr>studentId = ''s1'', studentName = ''Asha'', rollNumber = ''1'', status = Present\<rparr>],
      saving = False, faceApiLoaded = False\<rparr>"
  have reach: "fst (run [FetchStudents (Some [stA]), UpdateStatus ''s1'' Present, SetSelectedPeriod ''8'',
             SetPeriod8Free True] initial) = ?s"
    by code_simp
  have p: "parseInt (selectedPeriod ?s) = Some 8" by (simp add: parseInt_8)
  have f: "period8Free ?s" by simp
  have sv: "saveAttendance env_ok ?s = (?s, [ToastInfo ''Period 8 is marked as free. No attendance recorded.''])"
    using free_period8_saves_nothing [OF p f, of env_ok]
    by (simp add: saveAttendance_def Let_def parseInt_8)
  from reach parseInt_8 sv show ?thesis by (intro conjI)
qed

subsection \<open>A commit the sink rejects as a duplicate\<close>

text \<open>
  Claim C5. When the insert of a save is answered with an error whose message contains
  \<^verbatim>\<open>duplicate\<close>, the save has issued exactly one sink call, that insert (no second
  attempt, and an insert never replaces stored rows), it reports the conflict with an error
  toast, and it leaves the state as it was but for \<open>saving\<close>, which ends false: the
  attendance entries are unchanged.
\<close>

theorem duplicate_commit_reported:
  assumes "user env = Some uid" and "insert_error env = Some msg"
      and "includes_str msg ''duplicate''"
      and "\<not> (parseInt (selectedPeriod s) = Some 8 \<and> period8Free s)"
  shows "saveAttendance env s =
       (s\<lparr>saving := False\<rparr>,
        [Insert ''attendance_records''
           (records_of uid (split_T_first (now_iso env)) (parseInt (selectedPeriod s)) (attendance s)),
         ToastError ''Attendance already recorded for this period today'']) \<and>
     attendance (fst (saveAttendance env s)) = attendance s \<and>
     length (inserted (snd (saveAttendance env s))) = 1"
  using assms by (auto simp: saveAttendance_def Let_def insert_toast_def)

theorem duplicate_commit_reported_witness:
  "user env_dup = Some ''u1'' \<and>
   includes_str ''duplicate key value violates unique constraint'' ''duplicate'' \<and>
   parseInt (selectedPeriod (fetchStudents (Some [stA]) initial)) = Some 1 \<and>
   saveAttendance env_dup (fetchStudents (Some [stA]) initial) =
     (fetchStudents (Some [stA]) initial,
      [Insert ''attendance_records''
         [[(''student_id'', JStr ''s1''), (''date'', JStr ''2024-05-01''), (''period'', JNum 1),
           (''status'', JStr ''absent''), (''verified_by'', JStr ''u1'')]],
       ToastError ''Attendance already recorded for this period today''])"
proof -
  let ?s = "fetchStudents (Some [stA]) initial"
  have u: "user env_dup = Some ''u1''" by simp
  have e: "insert_error env_dup = Some ''duplicate key value violates unique constraint''" by simp
  have d: "includes_str ''duplicate key value violates unique constraint'' ''duplicate''" by simp
  have p: "parseInt (selectedPeriod ?s) = Some 1" by code_simp
  then have n: "\<not> (parseInt (selectedPeriod ?s) = Some 8 \<and> period8Free ?s)" by simp
  have r: "records_of ''u1'' (split_T_first (now_iso env_dup)) (Some 1) (attendance ?s) =
         [[(''student_id'', JStr ''s1''), (''date'', JStr ''2024-05-01''), (''period'', JNum 1),
           (''status'', JStr ''absent''), (''verified_by'', JStr ''u1'')]]"
    by code_simp
  have s: "?s\<lparr>saving := False\<rparr> = ?s" by (simp add: fetchStudents_def initial_def)
  from duplicate_commit_reported [OF u e d n] p r s u d show ?thesis by simp
qed

subsection \<open>Saving twice\<close>

lemma inserted_toast [simp]: "inserted (insert_toast err period # fx) = inserted fx"
  by (simp add: insert_toast_def split: option.splits)

text \<open>
  Claim C4, as stated, fails on the page: it keeps no record of a commit, so a second save
  of the same session builds the roll again and hands it to the sink a second time. Here
  the first insert succeeds and the sink answers the second with its duplicate error; both
  rolls appear among the effects.
\<close>

theorem second_save_writes_again:
  "inserted (snd (run [SaveAttendance env_ok, SaveAttendance env_dup]
      (fetchStudents (Some [stA]) initial))) =
     [[[(''student_id'', JStr ''s1''), (''date'', JStr ''2024-05-01''), (''period'', JNum 1),
        (''status'', JStr ''absent''), (''verified_by'', JStr ''u1'')]],
      [[(''student_id'', JStr ''s1''), (''date'', JStr ''2024-05-01''), (''period'', JNum 1),
        (''status'', JStr ''absent''), (''verified_by'', JStr ''u1'')]]]"
  by code_simp

text \<open>
  Claim C4, amended. Two saves in a row by the same user on the same date, with no event
  between them, build the identical roll, and each of them hands it to the sink: the page
  makes one insert per save and leaves it to the sink to reject the second.
\<close>

theorem second_save_same_roll:
  assumes "user env1 = Some uid" and "user env2 = Some uid"
      and "split_T_first (now_iso env1) = split_T_first (now_iso env2)"
      and "\<not> (parseInt (selectedPeriod s) = Some 8 \<and> period8Free s)"
  shows "inserted (snd (run [SaveAttendance env1, SaveAttendance env2] s)) =
       [records_of uid (split_T_first (now_iso env1)) (parseInt (selectedPeriod s)) (attendance s),
        records_of uid (split_T_first (now_iso env1)) (parseInt (selectedPeriod s)) (attendance s)]"
  using assms by (auto simp: saveAttendance_def Let_def split: prod.splits)

theorem second_save_same_roll_witness:
  "user env_ok = Some ''u1'' \<and> user env_dup = Some ''u1'' \<and>
   split_T_first (now_iso env_ok) = split_T_first (now_iso env_dup) \<and>
   parseInt (selectedPeriod (fetchStudents (Some [stA]) initial)) = Some 1 \<and>
   inserted (snd (run [SaveAttendance env_ok, SaveAttendance env_dup]
      (fetchStudents (Some [stA]) initial))) =
     [records_of ''u1'' ''2024-05-01'' (Some 1) (attendance (fetchStudents (Some [stA]) initial)),
      records_of ''u1'' ''2024-05-01'' (Some 1) (attendance (fetchStudents (Some [stA]) initial))]"
proof -
  let ?s = "fetchStudents (Some [stA]) initial"
  have u1: "user env_ok = Some ''u1''" and u2: "user env_dup = Some ''u1''" by simp_all
  have d1: "split_T_first (now_iso env_ok) = ''2024-05-01''" by code_simp
  have d2: "split_T_first (now_iso env_dup) = ''2024-05-01''" by code_simp
  have d: "split_T_first (now_iso env_ok) = split_T_first (now_iso env_dup)"
    by (simp only: d1 d2)
  have p: "parseInt (selectedPeriod ?s) = Some 1" by code_simp
  then have n: "\<not> (parseInt (selectedPeriod ?s) = Some 8 \<and> period8Free ?s)" by simp
  from second_save_same_roll [OF u1 u2 d n] u1 u2 d p d1 show ?thesis by simp
qed

subsection \<open>Manual overrides\<close>

text \<open>
  Claim C6, as stated, fails on the page: a per-student update does not fix the status for
  the rest of the session. Student \<open>s1\<close> is set to sleepy, then mark-all-present is
  pressed, and the roll of the save records \<open>s1\<close> as present.
\<close>

theorem mark_all_replaces_override:
  "inserted (snd (run [UpdateStatus ''s1'' Sleepy, MarkAllPresent, SaveAttendance env_ok]
      (fetchStudents (Some [stA, stB]) initial))) =
     [[[(''student_id'', JStr ''s1''), (''date'', JStr ''2024-05-01''), (''period'', JNum 1),
        (''status'', JStr ''present''), (''verified_by'', JStr ''u1'')],
       [(''student_id'', JStr ''s2''), (''date'', JStr ''2024-05-01''), (''period'', JNum 1),
        (''status'', JStr ''present''), (''verified_by'', JStr ''u1'')]]]"
  by code_simp

lemma override_kept_step:
  assumes "\<not> sets_status sid e \<and> \<not> refetch e"
      and "\<forall>a \<in> set (attendance s). studentId a = sid \<longrightarrow> status a = st"
  shows "\<forall>a \<in> set (attendance (fst (step e s))). studentId a = sid \<longrightarrow> status a = st"
proof (cases e)
  case (FetchStudents data)
  with assms show ?thesis by (cases data) simp_all
next
  case (UpdateStatus x st')
  with assms show ?thesis by (auto simp: updateStatus_def)
qed (use assms in simp_all)

lemma ids_kept_step:
  assumes "\<not> refetch e"
  shows "map studentId (attendance (fst (step e s))) = map studentId (attendance s)"
proof (cases e)
  case (FetchStudents data)
  with assms show ?thesis by (cases data) simp_all
qed simp_all

lemma records_of_entry:
  assumes "a \<in> set entries"
  shows "\<exists>r \<in> set (records_of uid today period entries).
     map_of r ''student_id'' = Some (JStr (studentId a)) \<and>
     map_of r ''status'' = Some (JStr (status_str (status a)))"
  using assms by (auto simp: records_of_def record_of_def)

lemma override_roll_step:
  assumes I1: "\<forall>a \<in> set (attendance s'). studentId a = sid \<longrightarrow> status a = st"
      and I2: "map studentId (attendance s') = map studentId (attendance s)"
      and x: "Insert tbl roll \<in> set (snd (step e s'))"
  shows "(\<forall>r \<in> set roll. map_of r ''student_id'' = Some (JStr sid) \<longrightarrow>
          map_of r ''status'' = Some (JStr (status_str st))) \<and>
       (sid \<in> set (map studentId (attendance s)) \<longrightarrow>
          (\<exists>r \<in> set roll. map_of r ''student_id'' = Some (JStr sid) \<and>
             map_of r ''status'' = Some (JStr (status_str st))))"
proof -
  from step_insert [OF x] obtain uid today period
    where roll: "roll = records_of uid today period (attendance s')" by blast
  have A: "map_of r ''status'' = Some (JStr (status_str st))"
    if "r \<in> set roll" "map_of r ''student_id'' = Some (JStr sid)" for r
  proof -
    from that have "r \<in> set (records_of uid today period (attendance s'))"
      and "map_of r ''student_id'' = Some (JStr sid)" by (simp_all add: roll)
    from records_of_status [OF this] obtain a where a: "a \<in> set (attendance s')"
      "studentId a = sid" "map_of r ''status'' = Some (JStr (status_str (status a)))"
      by (elim bexE conjE)
    from I1 a(1,2) have "status a = st" by blast
    with a(3) show ?thesis by simp
  qed
  have B: "\<exists>r \<in> set roll. map_of r ''student_id'' = Some (JStr sid) \<and>
             map_of r ''status'' = Some (JStr (status_str st))"
    if "sid \<in> set (map studentId (attendance s))"
  proof -
    from that I2 have "sid \<in> set (map studentId (attendance s'))" by simp
    then obtain a where a: "a \<in> set (attendance s')" "studentId a = sid" by auto
    with I1 have st: "status a = st" by blast
    from records_of_entry [OF a(1), of uid today period]
    show ?thesis unfolding roll a(2) st .
  qed
  from A B show ?thesis by blast
qed

text \<open>
  Claim C6, amended. A per-student update of \<open>sid\<close> to \<open>st\<close> decides the status of \<open>sid\<close>
  in every roll saved afterwards, as long as no later event sets that status again (another
  update for \<open>sid\<close>, mark-all-present) or reloads the roster. No other event changes it:
  the end of model loading, the camera switch, the period settings, updates for other
  students and saves leave it alone, and the page has no automatic tally. If \<open>sid\<close> is on
  the roster the roll does contain such a record.
\<close>

theorem manual_override_wins:
  assumes "list_all (\<lambda>e. \<not> sets_status sid e \<and> \<not> refetch e) post"
  shows "\<forall>roll \<in> set (inserted (snd (run post (updateStatus sid st s)))).
       (\<forall>r \<in> set roll. map_of r ''student_id'' = Some (JStr sid) \<longrightarrow>
          map_of r ''status'' = Some (JStr (status_str st))) \<and>
       (sid \<in> set (map studentId (attendance s)) \<longrightarrow>
          (\<exists>r \<in> set roll. map_of r ''student_id'' = Some (JStr sid) \<and>
             map_of r ''status'' = Some (JStr (status_str st))))"
proof -
  let ?I = "\<lambda>s'. (\<forall>a \<in> set (attendance s'). studentId a = sid \<longrightarrow> status a = st) \<and>
       map studentId (attendance s') = map studentId (attendance s)"
  let ?R = "\<lambda>x. \<forall>tbl roll. x = Insert tbl roll \<longrightarrow>
       (\<forall>r \<in> set roll. map_of r ''student_id'' = Some (JStr sid) \<longrightarrow>
          map_of r ''status'' = Some (JStr (status_str st))) \<and>
       (sid \<in> set (map studentId (attendance s)) \<longrightarrow>
          (\<exists>r \<in> set roll. map_of r ''student_id'' = Some (JStr sid) \<and>
             map_of r ''status'' = Some (JStr (status_str st))))"
  have "?I (fst (run post (updateStatus sid st s))) \<and>
        list_all ?R (snd (run post (updateStatus sid st s)))"
  proof (rule run_invariant [where ok = "\<lambda>e. \<not> sets_status sid e \<and> \<not> refetch e"
        and I = ?I and R = ?R])
    show "?I (fst (step e s'))" if "\<not> sets_status sid e \<and> \<not> refetch e" "?I s'" for e s'
    proof
      from that show "\<forall>a \<in> set (attendance (fst (step e s'))). studentId a = sid \<longrightarrow> status a = st"
        by (intro override_kept_step) simp_all
      from that have "\<not> refetch e" by simp
      from ids_kept_step [OF this, of s'] that(2)
      show "map studentId (attendance (fst (step e s'))) = map studentId (attendance s)" by simp
    qed
    show "?R x" if ok: "\<not> sets_status sid e \<and> \<not> refetch e" and I: "?I s'"
      and x: "x \<in> set (snd (step e s'))" for e s' x
    proof (intro allI impI)
      fix tbl roll
      assume "x = Insert tbl roll"
      with x have "Insert tbl roll \<in> set (snd (step e s'))" by simp
      from override_roll_step [OF conjunct1 [OF I] conjunct2 [OF I] this]
      show "(\<forall>r \<in> set roll. map_of r ''student_id'' = Some (JStr sid) \<longrightarrow>
          map_of r ''status'' = Some (JStr (status_str st))) \<and>
       (sid \<in> set (map studentId (attendance s)) \<longrightarrow>
          (\<exists>r \<in> set roll. map_of r ''student_id'' = Some (JStr sid) \<and>
             map_of r ''status'' = Some (JStr (status_str st))))" .
    qed
    show "list_all (\<lambda>e. \<not> sets_status sid e \<and> \<not> refetch e) post" by (rule assms)
    have "status a = st" if "a \<in> set (attendance (updateStatus sid st s))" "studentId a = sid" for a
    proof -
      from that(1) have "a \<in> (\<lambda>b. if studentId b = sid then b\<lparr>status := st\<rparr> else b) ` set (attendance s)"
        unfolding updateStatus_def by simp
      then obtain b where b: "a = (if studentId b = sid then b\<lparr>status := st\<rparr> else b)"
        by (rule imageE)
      show ?thesis
      proof (cases "studentId b = sid")
        case True
        with b show ?thesis by simp
      next
        case False
        with b that(2) show ?thesis by simp
      qed
    qed
    then show "?I (updateStatus sid st s)" by simp
  qed
  then have all: "list_all ?R (snd (run post (updateStatus sid st s)))" by (rule conjunct2)
  show ?thesis
  proof
    fix roll assume "roll \<in> set (inserted (snd (run post (updateStatus sid st s))))"
    then obtain tbl where "Insert tbl roll \<in> set (snd (run post (updateStatus sid st s)))"
      unfolding inserted_mem by (rule exE)
    with all have "?R (Insert tbl roll)" unfolding list_all_iff by (rule bspec)
    then show "(\<forall>r \<in> set roll. map_of r ''student_id'' = Some (JStr sid) \<longrightarrow>
          map_of r ''status'' = Some (JStr (status_str st))) \<and>
       (sid \<in> set (map studentId (attendance s)) \<longrightarrow>
          (\<exists>r \<in> set roll. map_of r ''student_id'' = Some (JStr sid) \<and>
             map_of r ''status'' = Some (JStr (status_str st))))"
      by blast
  qed
qed

theorem manual_override_wins_witness:
  "list_all (\<lambda>e. \<not> sets_status ''s1'' e \<and> \<not> refetch e)
     [LoadModels Loaded, ToggleCamera, UpdateStatus ''s2'' Present, SaveAttendance env_ok] \<and>
   inserted (snd (run [LoadModels Loaded, ToggleCamera, UpdateStatus ''s2'' Present, SaveAttendance env_ok]
      (updateStatus ''s1'' Sleepy (fetchStudents (Some [stA, stB]) initial)))) =
     [[[(''student_id'', JStr ''s1''), (''date'', JStr ''2024-05-01''), (''period'', JNum 1),
        (''status'', JStr ''sleepy''), (''verified_by'', JStr ''u1'')],
       [(''student_id'', JStr ''s2''), (''date'', JStr ''2024-05-01''), (''period'', JNum 1),
        (''status'', JStr ''present''), (''verified_by'', JStr ''u1'')]]] \<and>
   list_all (\<lambda>roll. list_ex (\<lambda>r. map_of r ''student_id'' = Some (JStr ''s1'') \<and>
                                map_of r ''status'' = Some (JStr ''sleepy'')) roll)
     (inserted (snd (run [LoadModels Loaded, ToggleCamera, UpdateStatus ''s2'' Present, SaveAttendance env_ok]
      (updateStatus ''s1'' Sleepy (fetchStudents (Some [stA, stB]) initial)))))"
proof -
  let ?post = "[LoadModels Loaded, ToggleCamera, UpdateStatus ''s2'' Present, SaveAttendance env_ok]"
  let ?s = "fetchStudents (Some [stA, stB]) initial"
  have h: "list_all (\<lambda>e. \<not> sets_status ''s1'' e \<and> \<not> refetch e) ?post" by simp
  have m: "''s1'' \<in> set (map studentId (attendance ?s))" by (simp add: fetchStudents_def)
  have v: "inserted (snd (run ?post (updateStatus ''s1'' Sleepy ?s))) =
     [[[(''student_id'', JStr ''s1''), (''date'', JStr ''2024-05-01''), (''period'', JNum 1),
        (''status'', JStr ''sleepy''), (''verified_by'', JStr ''u1'')],
       [(''student_id'', JStr ''s2''), (''date'', JStr ''2024-05-01''), (''period'', JNum 1),
        (''status'', JStr ''present''), (''verified_by'', JStr ''u1'')]]]"
    by code_simp
  from manual_override_wins [OF h, of Sleepy ?s] m
  have "\<forall>roll \<in> set (inserted (snd (run ?post (updateStatus ''s1'' Sleepy ?s)))).
       \<exists>r \<in> set roll. map_of r ''student_id'' = Some (JStr ''s1'') \<and>
             map_of r ''status'' = Some (JStr ''sleepy'')"
    by simp
  then have "list_all (\<lambda>roll. list_ex (\<lambda>r. map_of r ''student_id'' = Some (JStr ''s1'') \<and>
                                map_of r ''status'' = Some (JStr ''sleepy'')) roll)
     (inserted (snd (run ?post (updateStatus ''s1'' Sleepy ?s))))"
    by (simp add: list_all_iff list_ex_iff)
  with h v show ?thesis by (intro conjI)
qed

subsection \<open>Models that fail to load\<close>

lemma run_Cons:
  "run (e # es) s =
     (fst (run es (fst (step e s))), snd (step e s) @ snd (run es (fst (step e s))))"
  by (simp split: prod.splits)

lemma run_append:
  "run (xs @ ys) s =
     (fst (run ys (fst (run xs s))), snd (run xs s) @ snd (run ys (fst (run xs s))))"
  by (induction xs arbitrary: s) (simp_all add: run_Cons del: run.simps(2))

lemma console_logs_append: "console_logs (fx @ gx) = console_logs fx @ console_logs gx"
  by (induction fx rule: console_logs.induct) simp_all

lemma console_logs_toast [simp]: "console_logs (insert_toast err period # fx) = console_logs fx"
  by (simp add: insert_toast_def split: option.splits)

lemma quiet_unchanged: "console_logs fx = [] \<Longrightarrow> filter (\<lambda>x. \<not> is_log x) fx = fx"
  by (induction fx rule: console_logs.induct) simp_all

lemma step_quiet: "\<not> is_load e \<Longrightarrow> console_logs (snd (step e s)) = []"
  by (cases e) (simp_all add: saveAttendance_def Let_def split: option.splits)

lemma step_flag:
  assumes "\<not> is_load e"
  shows "step e (s\<lparr>faceApiLoaded := b\<rparr>) = ((fst (step e s))\<lparr>faceApiLoaded := b\<rparr>, snd (step e s))"
proof (cases e)
  case (FetchStudents data)
  then show ?thesis by (cases data) (simp_all add: fetchStudents_def)
next
  case (SaveAttendance env)
  then show ?thesis by (auto simp: saveAttendance_def Let_def split: option.splits)
qed (use assms in \<open>simp_all add: updateStatus_def markAllPresent_def\<close>)

lemma step_flag_kept: "\<not> is_load e \<Longrightarrow> faceApiLoaded (fst (step e s)) = faceApiLoaded s"
proof (cases e)
  case (FetchStudents data)
  then show ?thesis by (cases data) (simp_all add: fetchStudents_def)
next
  case (SaveAttendance env)
  then show ?thesis by (simp add: saveAttendance_def Let_def split: option.splits)
qed (simp_all add: updateStatus_def markAllPresent_def)

lemma run_quiet:
  "list_all (\<lambda>e. \<not> is_load e) evs \<Longrightarrow>
     console_logs (snd (run evs s)) = [] \<and> faceApiLoaded (fst (run evs s)) = faceApiLoaded s"
proof (induction evs arbitrary: s)
  case Nil
  then show ?case by simp
next
  case (Cons e es)
  then have e: "\<not> is_load e" and es: "list_all (\<lambda>e. \<not> is_load e) es" by simp_all
  from Cons.IH [OF es, of "fst (step e s)"] step_quiet [OF e, of s] step_flag_kept [OF e, of s]
  show ?case by (simp add: console_logs_append run_Cons del: run.simps(2))
qed

lemma run_flag:
  "list_all (\<lambda>e. \<not> is_load e) evs \<Longrightarrow>
     run evs (s\<lparr>faceApiLoaded := b\<rparr>) = ((fst (run evs s))\<lparr>faceApiLoaded := b\<rparr>, snd (run evs s))"
proof (induction evs arbitrary: s)
  case Nil
  then show ?case by simp
next
  case (Cons e es)
  then have e: "\<not> is_load e" and es: "list_all (\<lambda>e. \<not> is_load e) es" by simp_all
  from Cons.IH [OF es, of "fst (step e s)"] step_flag [OF e, where s = s and b = b]
  show ?case by (simp add: run_Cons del: run.simps(2))
qed

text \<open>
  Claim C7. In a session whose model loading ends once, and ends in a failure (the import
  or the loading of the nets throws), the failure is written to the console exactly once,
  whatever the other events before and after it are; the flag \<open>faceApiLoaded\<close> stays false
  (the page then shows its manual-mode note); and every other handler does what it does
  when the models load: the final state is that of the same session with a successful
  load, up to the flag, and the effects (rolls handed to the sink, toasts) are the same
  once the console line is left out.
\<close>

theorem models_unavailable_degrades:
  assumes fail: "outcome \<noteq> Loaded"
      and pre: "list_all (\<lambda>e. \<not> is_load e) pre"
      and post: "list_all (\<lambda>e. \<not> is_load e) post"
  shows "length (console_logs (snd (run (pre @ LoadModels outcome # post) initial))) = 1 \<and>
     \<not> faceApiLoaded (fst (run (pre @ LoadModels outcome # post) initial)) \<and>
     fst (run (pre @ LoadModels outcome # post) initial) =
       (fst (run (pre @ LoadModels Loaded # post) initial))\<lparr>faceApiLoaded := False\<rparr> \<and>
     filter (\<lambda>x. \<not> is_log x) (snd (run (pre @ LoadModels outcome # post) initial)) =
       snd (run (pre @ LoadModels Loaded # post) initial)"
proof -
  define s1 where "s1 = fst (run pre initial)"
  define f1 where "f1 = snd (run pre initial)"
  define s2 where "s2 = fst (run post s1)"
  define f2 where "f2 = snd (run post s1)"
  from fail obtain msg where lm: "loadModels outcome s1 = (s1, [ConsoleLog msg])"
    by (cases outcome) (simp_all add: loadModels_def)
  have q1: "console_logs f1 = []" and fl1: "faceApiLoaded s1 = False"
    using run_quiet [OF pre, of initial] by (simp_all add: f1_def s1_def initial_def)
  have q2: "console_logs f2 = []" and fl2: "faceApiLoaded s2 = False"
    using run_quiet [OF post, of s1] fl1 by (simp_all add: f2_def s2_def)
  have bad: "run (pre @ LoadModels outcome # post) initial = (s2, f1 @ ConsoleLog msg # f2)"
    by (simp add: run_append run_Cons lm s1_def [symmetric] f1_def [symmetric]
        s2_def [symmetric] f2_def [symmetric] del: run.simps(2))
  have "run post (s1\<lparr>faceApiLoaded := True\<rparr>) = (s2\<lparr>faceApiLoaded := True\<rparr>, f2)"
    using run_flag [OF post, where s = s1 and b = True] by (simp add: s2_def f2_def)
  then have good: "run (pre @ LoadModels Loaded # post) initial = (s2\<lparr>faceApiLoaded := True\<rparr>, f1 @ f2)"
    by (simp add: run_append run_Cons loadModels_def s1_def [symmetric] f1_def [symmetric]
        del: run.simps(2))
  have restore: "s2 = s2\<lparr>faceApiLoaded := True\<rparr>\<lparr>faceApiLoaded := False\<rparr>"
    using fl2 by simp
  have filt: "filter (\<lambda>x. \<not> is_log x) (f1 @ ConsoleLog msg # f2) = f1 @ f2"
    using quiet_unchanged [OF q1] quiet_unchanged [OF q2] by simp
  show ?thesis
    unfolding bad good using q1 q2 fl2 restore filt
    by (simp add: console_logs_append)
qed

theorem models_unavailable_degrades_witness:
  "ModelsFailed \<noteq> Loaded \<and>
   list_all (\<lambda>e. \<not> is_load e) [FetchStudents (Some [stA])] \<and>
   list_all (\<lambda>e. \<not> is_load e) [UpdateStatus ''s1'' Present, SaveAttendance env_ok] \<and>
   snd (run ([FetchStudents (Some [stA])] @ LoadModels ModelsFailed #
              [UpdateStatus ''s1'' Present, SaveAttendance env_ok]) initial) =
     [ConsoleLog ''Face-api models not available, using manual mode'',
      Insert ''attendance_records''
        [[(''student_id'', JStr ''s1''), (''date'', JStr ''2024-05-01''), (''period'', JNum 1),
          (''status'', JStr ''present''), (''verified_by'', JStr ''u1'')]],
      ToastSuccess ''Attendance saved for Period 1!''] \<and>
   length (console_logs (snd (run ([FetchStudents (Some [stA])] @ LoadModels ModelsFailed #
              [UpdateStatus ''s1'' Present, SaveAttendance env_ok]) initial))) = 1"
proof -
  have a: "ModelsFailed \<noteq> Loaded" by simp
  have b: "list_all (\<lambda>e. \<not> is_load e) [FetchStudents (Some [stA])]" by simp
  have c: "list_all (\<lambda>e. \<not> is_load e) [UpdateStatus ''s1'' Present, SaveAttendance env_ok]" by simp
  have v: "snd (run ([FetchStudents (Some [stA])] @ LoadModels ModelsFailed #
              [UpdateStatus ''s1'' Present, SaveAttendance env_ok]) initial) =
     [ConsoleLog ''Face-api models not available, using manual mode'',
      Insert ''attendance_records''
        [[(''student_id'', JStr ''s1''), (''date'', JStr ''2024-05-01''), (''period'', JNum 1),
          (''status'', JStr ''present''), (''verified_by'', JStr ''u1'')]],
      ToastSuccess ''Attendance saved for Period 1!'']"
    by code_simp
  from models_unavailable_degrades [OF a b c]
  have "length (console_logs (snd (run ([FetchStudents (Some [stA])] @ LoadModels ModelsFailed #
              [UpdateStatus ''s1'' Present, SaveAttendance env_ok]) initial))) = 1"
    by (rule conjunct1)
  with a b c v show ?thesis by (intro conjI)
qed

subsection \<open>The shape of a committed record\<close>

text \<open>
  Claim C9, as stated, fails on the page: the object literal of \<^verbatim>\<open>saveAttendance\<close> has the
  keys \<^verbatim>\<open>student_id\<close>, \<^verbatim>\<open>date\<close>, \<^verbatim>\<open>period\<close>, \<^verbatim>\<open>status\<close> and \<^verbatim>\<open>verified_by\<close>; there is no
  \<^verbatim>\<open>roll_number\<close> in it (the attendance page reads the roll number through the
  \<^verbatim>\<open>students\<close> relation).
\<close>

theorem roll_record_has_no_roll_number:
  "map (\<lambda>r. (map fst r, map_of r ''roll_number''))
     (concat (inserted (snd (run [FetchStudents (Some [stA]), SaveAttendance env_ok] initial)))) =
   [([''student_id'', ''date'', ''period'', ''status'', ''verified_by''], None)]"
  by code_simp

lemma digit_not_T: "is_digit 10 c \<Longrightarrow> c \<noteq> CHR ''T''"
proof
  assume "is_digit 10 c" and "c = CHR ''T''"
  then have "is_digit 10 (CHR ''T'')" by simp
  then show False by (simp add: is_digit_def digit_val_def)
qed

lemma matches_split:
  assumes "matches (p1 @ CHR ''T'' # p2) t" and "CHR ''T'' \<notin> set p1"
  shows "takeWhile (\<lambda>c. c \<noteq> CHR ''T'') t = take (length p1) t \<and> matches p1 (take (length p1) t)"
  using assms
proof (induction p1 arbitrary: t)
  case Nil
  then show ?case by (cases t) simp_all
next
  case (Cons p ps)
  then obtain c cs where t: "t = c # cs" by (cases t) simp_all
  with Cons.prems have m: "matches (ps @ CHR ''T'' # p2) cs"
    and c: "if p = CHR ''#'' then is_digit 10 c else c = p"
    and n: "CHR ''T'' \<notin> set ps" "p \<noteq> CHR ''T''" by auto
  from c n(2) have "c \<noteq> CHR ''T''" by (auto dest: digit_not_T split: if_splits)
  with Cons.IH [OF m n(1)] c t show ?case by simp
qed

lemma iso_instant_date: "iso_instant t \<Longrightarrow> iso_date (split_T_first t)"
proof -
  assume "iso_instant t"
  then have "matches (''####-##-##'' @ CHR ''T'' # ''##:##:##.###Z'') t"
    by (simp add: iso_instant_def)
  from matches_split [OF this] show ?thesis
    by (simp add: iso_date_def split_T_first_def)
qed

lemma parse_small_toString:
  "map (\<lambda>i. parseInt (toString (int i + 1))) [0..<8] = map (\<lambda>i. Some (int i + 1)) [0..<8]"
  by code_simp

lemma option_parses:
  assumes "v \<in> set (period_options s)"
  shows "\<exists>p. parseInt v = Some p \<and> 1 \<le> p \<and> p \<le> 8"
proof -
  from assms obtain i where i: "i < maxPeriods s" and v: "v = toString (int i + 1)"
    by (auto simp: period_options_def)
  from i have i8: "i \<in> set [0..<8]" by (simp add: maxPeriods_def split: if_splits)
  with parse_small_toString have "parseInt (toString (int i + 1)) = Some (int i + 1)"
    unfolding map_eq_conv by (rule bspec)
  with v i8 show ?thesis by simp
qed

lemma period_step:
  assumes "possible s e" and "\<exists>p. parseInt (selectedPeriod s) = Some p \<and> 1 \<le> p \<and> p \<le> 8"
  shows "\<exists>p. parseInt (selectedPeriod (fst (step e s))) = Some p \<and> 1 \<le> p \<and> p \<le> 8"
proof (cases e)
  case (FetchStudents data)
  with assms show ?thesis by (cases data) (simp_all add: fetchStudents_def)
next
  case (LoadModels outcome)
  with assms show ?thesis by (cases outcome) (simp_all add: loadModels_def)
next
  case (SaveAttendance env)
  with assms show ?thesis by (simp add: saveAttendance_def Let_def split: option.splits)
next
  case (SetSelectedPeriod v)
  with assms(1) option_parses [of v s] show ?thesis by simp
qed (use assms in \<open>simp_all add: updateStatus_def markAllPresent_def\<close>)

lemma status_str_range: "status_str st \<in> {''present'', ''sleepy'', ''absent''}"
  by (cases st) simp_all

lemma roll_step:
  assumes ok: "possible s e"
      and per: "\<exists>p. parseInt (selectedPeriod s) = Some p \<and> 1 \<le> p \<and> p \<le> 8"
      and ins: "Insert tbl roll \<in> set (snd (step e s))"
  shows "\<exists>uid d p. iso_date d \<and> 1 \<le> p \<and> p \<le> 8 \<and>
     (\<forall>r \<in> set roll. \<exists>sid st. status_str st \<in> {''present'', ''sleepy'', ''absent''} \<and>
        r = [(''student_id'', JStr sid), (''date'', JStr d), (''period'', JNum p),
             (''status'', JStr (status_str st)), (''verified_by'', JStr uid)])"
proof -
  from step_insert [OF ins] obtain env uid where e: "e = SaveAttendance env"
    and roll: "roll = records_of uid (split_T_first (now_iso env)) (parseInt (selectedPeriod s)) (attendance s)"
    by blast
  from per obtain p where p: "parseInt (selectedPeriod s) = Some p" "1 \<le> p" "p \<le> 8" by blast
  from ok e have d: "iso_date (split_T_first (now_iso env))" by (simp add: iso_instant_date)
  have "\<exists>sid st. status_str st \<in> {''present'', ''sleepy'', ''absent''} \<and>
        r = [(''student_id'', JStr sid), (''date'', JStr (split_T_first (now_iso env))), (''period'', JNum p),
             (''status'', JStr (status_str st)), (''verified_by'', JStr uid)]"
    if "r \<in> set roll" for r
  proof -
    from that obtain a where "r = record_of uid (split_T_first (now_iso env)) (Some p) a"
      unfolding roll p(1) records_of_def by auto
    then have "r = [(''student_id'', JStr (studentId a)), (''date'', JStr (split_T_first (now_iso env))),
        (''period'', JNum p), (''status'', JStr (status_str (status a))), (''verified_by'', JStr uid)]"
      by (simp add: record_of_def num_val_def)
    with status_str_range [of "status a"] show ?thesis
      by (intro exI [of _ "studentId a"] exI [of _ "status a"] conjI)
  qed
  then have "\<forall>r \<in> set roll. \<exists>sid st. status_str st \<in> {''present'', ''sleepy'', ''absent''} \<and>
        r = [(''student_id'', JStr sid), (''date'', JStr (split_T_first (now_iso env))), (''period'', JNum p),
             (''status'', JStr (status_str st)), (''verified_by'', JStr uid)]" ..
  with d p(2,3) show ?thesis
    by (intro exI [of _ uid] exI [of _ "split_T_first (now_iso env)"] exI [of _ p] conjI)
qed

lemma rolls_of_run:
  assumes "possible_run evs s"
      and "\<exists>p. parseInt (selectedPeriod s) = Some p \<and> 1 \<le> p \<and> p \<le> 8"
      and "roll \<in> set (inserted (snd (run evs s)))"
  shows "\<exists>uid d p. iso_date d \<and> 1 \<le> p \<and> p \<le> 8 \<and>
     (\<forall>r \<in> set roll. \<exists>sid st. status_str st \<in> {''present'', ''sleepy'', ''absent''} \<and>
        r = [(''student_id'', JStr sid), (''date'', JStr d), (''period'', JNum p),
             (''status'', JStr (status_str st)), (''verified_by'', JStr uid)])"
  using assms
proof (induction evs arbitrary: s)
  case Nil
  then show ?case by simp
next
  case (Cons e es)
  from Cons.prems(1) have ok: "possible s e" and rest: "possible_run es (fst (step e s))" by simp_all
  from Cons.prems(3) obtain tbl where
    "Insert tbl roll \<in> set (snd (step e s)) \<or> Insert tbl roll \<in> set (snd (run es (fst (step e s))))"
    unfolding inserted_mem by (auto split: prod.splits)
  then show ?case
  proof
    assume "Insert tbl roll \<in> set (snd (step e s))"
    from roll_step [OF ok Cons.prems(2) this] show ?thesis .
  next
    assume "Insert tbl roll \<in> set (snd (run es (fst (step e s))))"
    then have "roll \<in> set (inserted (snd (run es (fst (step e s)))))"
      unfolding inserted_mem by blast
    from Cons.IH [OF rest period_step [OF ok Cons.prems(2)] this] show ?thesis .
  qed
qed

text \<open>
  Claim C9, amended. In every session that starts in the initial state, where the period
  menu delivers only values of its items and the clock text has the shape of
  \<^verbatim>\<open>toISOString\<close>, every roll handed to the sink has one date \<open>d\<close> of the form
  \<^verbatim>\<open>YYYY-MM-DD\<close>, one period \<open>p\<close> with \<open>1 \<le> p \<le> 8\<close> and one verifying user \<open>uid\<close>, and
  each of its records is exactly the five fields \<^verbatim>\<open>student_id\<close>, \<^verbatim>\<open>date\<close>, \<^verbatim>\<open>period\<close>,
  \<^verbatim>\<open>status\<close>, \<^verbatim>\<open>verified_by\<close>, in this order, with a status among \<^verbatim>\<open>present\<close>,
  \<^verbatim>\<open>sleepy\<close>, \<^verbatim>\<open>absent\<close>.
\<close>

theorem committed_record_shape:
  assumes "possible_run evs initial"
  shows "\<forall>roll \<in> set (inserted (snd (run evs initial))).
     \<exists>uid d p. iso_date d \<and> 1 \<le> p \<and> p \<le> 8 \<and>
       (\<forall>r \<in> set roll. \<exists>sid st. status_str st \<in> {''present'', ''sleepy'', ''absent''} \<and>
          r = [(''student_id'', JStr sid), (''date'', JStr d), (''period'', JNum p),
               (''status'', JStr (status_str st)), (''verified_by'', JStr uid)])"
proof
  fix roll assume r: "roll \<in> set (inserted (snd (run evs initial)))"
  have "parseInt (selectedPeriod initial) = Some 1" by code_simp
  then have "\<exists>p. parseInt (selectedPeriod initial) = Some p \<and> 1 \<le> p \<and> p \<le> 8" by simp
  from rolls_of_run [OF assms this r]
  show "\<exists>uid d p. iso_date d \<and> 1 \<le> p \<and> p \<le> 8 \<and>
       (\<forall>r \<in> set roll. \<exists>sid st. status_str st \<in> {''present'', ''sleepy'', ''absent''} \<and>
          r = [(''student_id'', JStr sid), (''date'', JStr d), (''period'', JNum p),
               (''status'', JStr (status_str st)), (''verified_by'', JStr uid)])" .
qed

theorem committed_record_shape_witness:
  "possible_run [FetchStudents (Some [stA, stB]), SetPeriod8Free True, SetSelectedPeriod ''7'',
      UpdateStatus ''s1'' Sleepy, SaveAttendance env_ok] initial \<and>
   inserted (snd (run [FetchStudents (Some [stA, stB]), SetPeriod8Free True, SetSelectedPeriod ''7'',
      UpdateStatus ''s1'' Sleepy, SaveAttendance env_ok] initial)) =
     [[[(''student_id'', JStr ''s1''), (''date'', JStr ''2024-05-01''), (''period'', JNum 7),
        (''status'', JStr ''sleepy''), (''verified_by'', JStr ''u1'')],
       [(''student_id'', JStr ''s2''), (''date'', JStr ''2024-05-01''), (''period'', JNum 7),
        (''status'', JStr ''absent''), (''verified_by'', JStr ''u1'')]]] \<and>
   list_all (\<lambda>roll. \<exists>uid d p. iso_date d \<and> 1 \<le> p \<and> p \<le> 8 \<and>
       list_all (\<lambda>r. \<exists>sid st. status_str st \<in> {''present'', ''sleepy'', ''absent''} \<and>
          r = [(''student_id'', JStr sid), (''date'', JStr d), (''period'', JNum p),
               (''status'', JStr (status_str st)), (''verified_by'', JStr uid)]) roll)
     (inserted (snd (run [FetchStudents (Some [stA, stB]), SetPeriod8Free True, SetSelectedPeriod ''7'',
      UpdateStatus ''s1'' Sleepy, SaveAttendance env_ok] initial)))"
proof -
  let ?evs = "[FetchStudents (Some [stA, stB]), SetPeriod8Free True, SetSelectedPeriod ''7'',
      UpdateStatus ''s1'' Sleepy, SaveAttendance env_ok]"
  have h: "possible_run ?evs initial" by code_simp
  have v: "inserted (snd (run ?evs initial)) =
     [[[(''student_id'', JStr ''s1''), (''date'', JStr ''2024-05-01''), (''period'', JNum 7),
        (''status'', JStr ''sleepy''), (''verified_by'', JStr ''u1'')],
       [(''student_id'', JStr ''s2''), (''date'', JStr ''2024-05-01''), (''period'', JNum 7),
        (''status'', JStr ''absent''), (''verified_by'', JStr ''u1'')]]]"
    by code_simp
  from committed_record_shape [OF h]
  have "list_all (\<lambda>roll. \<exists>uid d p. iso_date d \<and> 1 \<le> p \<and> p \<le> 8 \<and>
       list_all (\<lambda>r. \<exists>sid st. status_str st \<in> {''present'', ''sleepy'', ''absent''} \<and>
          r = [(''student_id'', JStr sid), (''date'', JStr d), (''period'', JNum p),
               (''status'', JStr (status_str st)), (''verified_by'', JStr uid)]) roll)
     (inserted (snd (run ?evs initial)))"
    unfolding list_all_iff .
  with h v show ?thesis by (intro conjI)
qed

section \<open>Properties of the recognition core as specified\<close>

subsection \<open>The drowsiness majority\<close>

text \<open>The tally of one identity after a stream, folded on its own.\<close>

lemma observe_map:
  "observe x ss =
     map (\<lambda>(j, t). (j, if sample_identity x = Some j
                         then credit (engagement_label x) (timestamp x) t else t)) ss"
  by (cases "sample_identity x") (auto simp: observe_def)

lemma aggregate_map:
  "aggregate xs ss =
     map (\<lambda>(j, t). (j, fold (\<lambda>x t. if sample_identity x = Some j
                                   then credit (engagement_label x) (timestamp x) t else t) xs t)) ss"
proof (induction xs arbitrary: ss)
  case Nil
  then show ?case by (simp add: aggregate_def)
next
  case (Cons x xs)
  have "aggregate (x # xs) ss = aggregate xs (observe x ss)" by (simp add: aggregate_def)
  also have "\<dots> = map (\<lambda>(j, t). (j, fold (\<lambda>x t. if sample_identity x = Some j
                                   then credit (engagement_label x) (timestamp x) t else t) xs t))
                      (observe x ss)"
    by (rule Cons.IH)
  finally show ?case by (simp add: observe_map case_prod_unfold comp_def)
qed

lemma own_fold_counts:
  "count_seen (fold (\<lambda>x t. if sample_identity x = Some i
                              then credit (engagement_label x) (timestamp x) t else t) xs t)
     = count_seen t + seen_count i xs \<and>
   count_drowsy (fold (\<lambda>x t. if sample_identity x = Some i
                              then credit (engagement_label x) (timestamp x) t else t) xs t)
     = count_drowsy t + drowsy_count i xs"
  by (induction xs arbitrary: t) (simp_all add: seen_count_def drowsy_count_def credit_def)

lemma map_of_keyed:
  "map_of (map (\<lambda>(j, t). (j, f j t)) ss) i = map_option (f i) (map_of ss i)"
  by (induction ss) auto

lemma map_of_open: "i \<in> set ids \<Longrightarrow>
   map_of (open_session ids) i = Some \<lparr>count_seen = 0, count_drowsy = 0, last_seen_timestamp = 0\<rparr>"
  by (induction ids) (auto simp: open_session_def)

text \<open>
  Claim C3. After any stream of samples, the period close gives an enrolled identity that
  was seen at least once the status sleepy when the share of its drowsy samples among its
  samples exceeds the configured fraction, and present otherwise; in particular an
  identity seen in 10 samples, 6 of them drowsy, is sleepy under the default fraction.
\<close>

theorem drowsy_majority_rule:
  assumes "i \<in> set ids" and "0 < seen_count i xs"
  shows "map_of (period_close fr (aggregate xs (open_session ids))) i =
       Some (if fr < of_nat (drowsy_count i xs) / of_nat (seen_count i xs) then Sleepy else Present) \<and>
     (seen_count i xs = 10 \<and> drowsy_count i xs = 6 \<longrightarrow>
        map_of (period_close default_fraction (aggregate xs (open_session ids))) i = Some Sleepy)"
proof -
  let ?own = "\<lambda>j. fold (\<lambda>x t. if sample_identity x = Some j
                              then credit (engagement_label x) (timestamp x) t else t) xs"
  let ?t0 = "\<lparr>count_seen = 0, count_drowsy = 0, last_seen_timestamp = 0\<rparr>"
  have close: "map_of (period_close q (aggregate xs (open_session ids))) i =
        Some (final_status q (?own i ?t0))" for q
  proof -
    have "period_close q (aggregate xs (open_session ids)) =
        map (\<lambda>(j, t). (j, final_status q (?own j t))) (open_session ids)"
      by (simp add: period_close_def aggregate_map case_prod_unfold comp_def)
    then show ?thesis
      using map_of_keyed [of "\<lambda>j t. final_status q (?own j t)" "open_session ids" i]
        map_of_open [OF assms(1)] by simp
  qed
  from own_fold_counts [of i xs ?t0]
  have cs: "count_seen (?own i ?t0) = seen_count i xs"
    and cd: "count_drowsy (?own i ?t0) = drowsy_count i xs" by simp_all
  have main: "final_status q (?own i ?t0) =
      (if q < of_nat (drowsy_count i xs) / of_nat (seen_count i xs) then Sleepy else Present)" for q
    using assms(2) by (simp add: final_status_def cs cd)
  have "final_status default_fraction (?own i ?t0) = Sleepy"
    if "seen_count i xs = 10" "drowsy_count i xs = 6"
    unfolding main using that by (simp add: default_fraction_def)
  with close main show ?thesis by simp
qed

theorem drowsy_majority_rule_witness:
  "''A'' \<in> set [''A'', ''B''] \<and>
   seen_count ''A''
     (replicate 6 \<lparr>sample_identity = Some ''A'', engagement_label = Drowsy, timestamp = 5\<rparr> @
      replicate 4 \<lparr>sample_identity = Some ''A'', engagement_label = Attentive, timestamp = 9\<rparr>) = 10 \<and>
   drowsy_count ''A''
     (replicate 6 \<lparr>sample_identity = Some ''A'', engagement_label = Drowsy, timestamp = 5\<rparr> @
      replicate 4 \<lparr>sample_identity = Some ''A'', engagement_label = Attentive, timestamp = 9\<rparr>) = 6 \<and>
   map_of (period_close default_fraction (aggregate
     (replicate 6 \<lparr>sample_identity = Some ''A'', engagement_label = Drowsy, timestamp = 5\<rparr> @
      replicate 4 \<lparr>sample_identity = Some ''A'', engagement_label = Attentive, timestamp = 9\<rparr>)
     (open_session [''A'', ''B'']))) ''A'' = Some Sleepy"
proof -
  let ?xs = "replicate 6 \<lparr>sample_identity = Some ''A'', engagement_label = Drowsy, timestamp = 5\<rparr> @
      replicate 4 \<lparr>sample_identity = Some ''A'', engagement_label = Attentive, timestamp = 9\<rparr>"
  have a: "''A'' \<in> set [''A'', ''B'']" by simp
  have s: "seen_count ''A'' ?xs = 10" by (simp add: seen_count_def)
  have d: "drowsy_count ''A'' ?xs = 6" by (simp add: drowsy_count_def)
  from s have p: "0 < seen_count ''A'' ?xs" by simp
  from drowsy_majority_rule [OF a p, of default_fraction] s d
  have "map_of (period_close default_fraction (aggregate ?xs (open_session [''A'', ''B'']))) ''A'' = Some Sleepy"
    by blast
  with a s d show ?thesis by (intro conjI)
qed

subsection \<open>The matcher's three outcomes\<close>

text \<open>
  Claim C8, as stated, fails on the matcher of section 4.4 when epsilon is positive: its
  first two clauses contradict each other where one identity lies within the threshold and
  a second one lies beyond it but within epsilon of the first. With threshold 0.6 and
  epsilon 0.1, \<open>A\<close> at distance 0.55 is the only identity within the threshold, \<open>B\<close> at
  0.62 ties with it, and the matcher answers unknown.
\<close>

theorem sole_within_threshold_yet_unknown:
  "within_threshold line_dist (6 / 10) [(''A'', [55 / 100]), (''B'', [62 / 100])] 0 = [''A''] \<and>
   matcher line_dist (6 / 10) (1 / 10) [(''A'', [55 / 100]), (''B'', [62 / 100])] 0 = Unknown"
  by (simp add: within_threshold_def matcher_def scored_def identity_distance_def)

lemma fold_min_lower:
  "fold (\<lambda>(i, m) b. min m b) rest (m0 :: real) \<le> m0 \<and>
   (\<forall>x \<in> set rest. fold (\<lambda>(i, m) b. min m b) rest m0 \<le> snd x)"
proof (induction rest arbitrary: m0)
  case Nil
  then show ?case by simp
next
  case (Cons x rest)
  obtain i m where x: "x = (i, m)" by (cases x)
  from Cons.IH [of "min m m0"] show ?case by (auto simp: x)
qed

lemma fold_min_attained:
  "fold (\<lambda>(i, m) b. min m b) rest (m0 :: real) = m0 \<or>
   (\<exists>x \<in> set rest. fold (\<lambda>(i, m) b. min m b) rest m0 = snd x)"
proof (induction rest arbitrary: m0)
  case Nil
  then show ?case by simp
next
  case (Cons x rest)
  obtain i m where x: "x = (i, m)" by (cases x)
  from Cons.IH [of "min m m0"] show ?case by (auto simp: x min_def split: if_splits)
qed

lemma best_least:
  assumes "sc = (i0, m0) # rest" and "best = fold (\<lambda>(i, m) b. min m b) rest (m0 :: real)"
  shows "(\<forall>x \<in> set sc. best \<le> snd x) \<and> (\<exists>x \<in> set sc. snd x = best)"
proof
  from fold_min_lower [of rest m0] assms show "\<forall>x \<in> set sc. best \<le> snd x" by simp
  from fold_min_attained [of rest m0] show "\<exists>x \<in> set sc. snd x = best"
  proof
    assume "fold (\<lambda>(i, m) b. min m b) rest m0 = m0"
    with assms have "(i0, m0) \<in> set sc" "snd (i0, m0) = best" by simp_all
    then show ?thesis by blast
  next
    assume "\<exists>x \<in> set rest. fold (\<lambda>(i, m) b. min m b) rest m0 = snd x"
    then obtain x where "x \<in> set rest" "fold (\<lambda>(i, m) b. min m b) rest m0 = snd x" by blast
    with assms have "x \<in> set sc" "snd x = best" by simp_all
    then show ?thesis by blast
  qed
qed

lemma scored_fst_subset: "fst ` set (scored distance g d) \<subseteq> fst ` set g"
  by (auto simp: scored_def split: option.splits) force

lemma scored_distinct: "distinct (map fst g) \<Longrightarrow> distinct (map fst (scored distance g d))"
proof (induction g)
  case Nil
  then show ?case by (simp add: scored_def)
next
  case (Cons x g)
  obtain i es where x: "x = (i, es)" by (cases x)
  have step: "scored distance (x # g) d =
      (case identity_distance distance d es of None \<Rightarrow> [] | Some m \<Rightarrow> [(i, m)]) @ scored distance g d"
    by (simp add: scored_def x)
  from Cons.prems x have "i \<notin> fst ` set g" by simp
  with scored_fst_subset [of distance g d] have "i \<notin> fst ` set (scored distance g d)" by blast
  with Cons step show ?case by (auto split: option.splits)
qed

lemma filter_single:
  assumes "distinct (map fst sc)" and "(i, m) \<in> set sc" and "P (i, m)"
      and "\<And>k m'. (k, m') \<in> set sc \<Longrightarrow> k \<noteq> i \<Longrightarrow> \<not> P (k, m')"
  shows "filter P sc = [(i, m)]"
  using assms
proof (induction sc)
  case Nil
  then show ?case by simp
next
  case (Cons x sc)
  obtain k m' where x: "x = (k, m')" by (cases x)
  show ?case
  proof (cases "k = i")
    case True
    with Cons.prems(1,2) x have xm: "x = (i, m)" and notin: "i \<notin> fst ` set sc" by force+
    have "filter P sc = []"
    proof (rule filter_False, rule ballI)
      fix y assume y: "y \<in> set sc"
      obtain k' m'' where y': "y = (k', m'')" by (cases y)
      with y notin have "k' \<noteq> i" by force
      with Cons.prems(4) [of k' m''] y y' show "\<not> P y" by simp
    qed
    with xm Cons.prems(3) show ?thesis by simp
  next
    case False
    with Cons.prems x have "(i, m) \<in> set sc" "\<not> P x" "distinct (map fst sc)" by auto
    with Cons.IH [OF this(3) this(1) Cons.prems(3)] Cons.prems(4) show ?thesis by simp
  qed
qed

lemma two_not_single:
  assumes "x \<in> set xs" and "y \<in> set xs" and "x \<noteq> y"
  shows "(case xs of [(i, m)] \<Rightarrow> Known i | _ \<Rightarrow> Unknown) = Unknown"
proof (cases xs)
  case Nil
  then show ?thesis by simp
next
  case (Cons a as)
  with assms have "as \<noteq> []" by auto
  with Cons show ?thesis by (cases as) (simp_all split: prod.splits)
qed

lemma matcher_clear_winner:
  assumes dg: "distinct (map fst g)" and eps: "0 \<le> eps"
      and i: "map_of (scored distance g d) i = Some m" and thr: "m \<le> threshold"
      and sep: "\<And>j m'. j \<noteq> i \<Longrightarrow> map_of (scored distance g d) j = Some m' \<Longrightarrow> m + eps < m'"
  shows "matcher distance threshold eps g d = Known i"
proof -
  let ?sc = "scored distance g d"
  have ds: "distinct (map fst ?sc)" using dg by (rule scored_distinct)
  from i have mem: "(i, m) \<in> set ?sc" by (rule map_of_SomeD)
  then obtain i0 m0 rest where sc: "?sc = (i0, m0) # rest" by (cases ?sc) auto
  define best where "best = fold (\<lambda>(i, m) b. min m b) rest m0"
  from best_least [OF sc best_def] have low: "\<forall>x \<in> set ?sc. best \<le> snd x"
    and att: "\<exists>x \<in> set ?sc. snd x = best" by simp_all
  have others: "m + eps < m'" if "(k, m') \<in> set ?sc" "k \<noteq> i" for k m'
    using sep [OF that(2)] that(1) ds by simp
  have "best = m"
  proof -
    from att obtain k m' where km: "(k, m') \<in> set ?sc" "m' = best" by force
    show ?thesis
    proof (cases "k = i")
      case True
      with km(1) mem ds have "m' = m" by (metis map_of_is_SomeI option.inject)
      with km(2) show ?thesis by simp
    next
      case False
      from others [OF km(1) False] eps have "m < m'" by simp
      moreover from low mem have "best \<le> m" by force
      ultimately show ?thesis using km(2) by simp
    qed
  qed
  have single: "filter (\<lambda>(k, m'). m' \<le> best + eps) ?sc = [(i, m)]"
  proof (rule filter_single [OF ds mem])
    show "case (i, m) of (k, m') \<Rightarrow> m' \<le> best + eps" using \<open>best = m\<close> eps by simp
    show "\<not> (case (k, m') of (k, m') \<Rightarrow> m' \<le> best + eps)"
      if "(k, m') \<in> set ?sc" "k \<noteq> i" for k m'
      using others [OF that] \<open>best = m\<close> by simp
  qed
  have "\<not> threshold < best" using \<open>best = m\<close> thr by simp
  with single show ?thesis
    unfolding matcher_def sc [symmetric]
    by (simp add: sc best_def [symmetric] Let_def del: filter.simps)
qed

lemma matcher_tie:
  assumes ij: "i \<noteq> j"
      and i: "map_of (scored distance g d) i = Some mi"
      and j: "map_of (scored distance g d) j = Some mj"
      and near: "\<And>k mk. map_of (scored distance g d) k = Some mk \<Longrightarrow> mi \<le> mk + eps \<and> mj \<le> mk + eps"
      and dg: "distinct (map fst g)"
  shows "matcher distance threshold eps g d = Unknown"
proof -
  let ?sc = "scored distance g d"
  have ds: "distinct (map fst ?sc)" using dg by (rule scored_distinct)
  from i j have mem: "(i, mi) \<in> set ?sc" "(j, mj) \<in> set ?sc" by (auto dest: map_of_SomeD)
  then obtain i0 m0 rest where sc: "?sc = (i0, m0) # rest" by (cases ?sc) auto
  define best where "best = fold (\<lambda>(i, m) b. min m b) rest m0"
  from best_least [OF sc best_def] obtain k mk where km: "(k, mk) \<in> set ?sc" "mk = best" by force
  from km(1) ds have "map_of ?sc k = Some mk" by simp
  from near [OF this] km(2) have "mi \<le> best + eps" "mj \<le> best + eps" by simp_all
  with mem have "(i, mi) \<in> set (filter (\<lambda>(k, m'). m' \<le> best + eps) ?sc)"
    "(j, mj) \<in> set (filter (\<lambda>(k, m'). m' \<le> best + eps) ?sc)" by simp_all
  from two_not_single [OF this] ij
  have "(case filter (\<lambda>(k, m'). m' \<le> best + eps) ?sc of [(i, m)] \<Rightarrow> Known i | _ \<Rightarrow> Unknown) = Unknown"
    by simp
  then show ?thesis
    unfolding matcher_def
    by (simp add: sc best_def [symmetric] Let_def del: filter.simps)
qed

lemma matcher_beyond:
  assumes far: "\<And>k mk. map_of (scored distance g d) k = Some mk \<Longrightarrow> threshold < mk"
      and dg: "distinct (map fst g)"
  shows "matcher distance threshold eps g d = Unknown"
proof (cases "scored distance g d")
  case Nil
  then show ?thesis by (simp add: matcher_def)
next
  case (Cons x rest)
  obtain i0 m0 where x: "x = (i0, m0)" by (cases x)
  let ?sc = "scored distance g d"
  have sc: "?sc = (i0, m0) # rest" using Cons x by simp
  have ds: "distinct (map fst ?sc)" using dg by (rule scored_distinct)
  define best where "best = fold (\<lambda>(i, m) b. min m b) rest m0"
  from best_least [OF sc best_def] obtain k mk where km: "(k, mk) \<in> set ?sc" "mk = best" by force
  from km(1) ds have "map_of ?sc k = Some mk" by simp
  from far [OF this] km(2) have "threshold < best" by simp
  then show ?thesis
    unfolding matcher_def
    by (simp add: sc best_def [symmetric] Let_def del: filter.simps)
qed

text \<open>
  Claim C8, amended. For a gallery with one entry per identity and a tie margin
  \<open>eps \<ge> 0\<close>: if the descriptor is within the threshold of an identity and every other
  identity is farther away than that distance plus \<open>eps\<close>, the matcher returns that
  identity; if two identities are both within \<open>eps\<close> of the least distance of all, it
  returns unknown; if every identity is beyond the threshold, it returns unknown.
\<close>

theorem matcher_decisions:
  assumes "distinct (map fst g)" and "0 \<le> eps"
  shows "(\<forall>i m. map_of (scored distance g d) i = Some m \<and> m \<le> threshold \<and>
            (\<forall>j m'. j \<noteq> i \<and> map_of (scored distance g d) j = Some m' \<longrightarrow> m + eps < m')
          \<longrightarrow> matcher distance threshold eps g d = Known i) \<and>
     (\<forall>i j mi mj. i \<noteq> j \<and> map_of (scored distance g d) i = Some mi \<and>
            map_of (scored distance g d) j = Some mj \<and>
            (\<forall>k mk. map_of (scored distance g d) k = Some mk \<longrightarrow> mi \<le> mk + eps \<and> mj \<le> mk + eps)
          \<longrightarrow> matcher distance threshold eps g d = Unknown) \<and>
     ((\<forall>k mk. map_of (scored distance g d) k = Some mk \<longrightarrow> threshold < mk)
          \<longrightarrow> matcher distance threshold eps g d = Unknown)"
proof (intro conjI allI impI)
  fix i m
  assume "map_of (scored distance g d) i = Some m \<and> m \<le> threshold \<and>
            (\<forall>j m'. j \<noteq> i \<and> map_of (scored distance g d) j = Some m' \<longrightarrow> m + eps < m')"
  then show "matcher distance threshold eps g d = Known i"
    using matcher_clear_winner [OF assms, of distance d i m threshold] by blast
next
  fix i j mi mj
  assume "i \<noteq> j \<and> map_of (scored distance g d) i = Some mi \<and>
            map_of (scored distance g d) j = Some mj \<and>
            (\<forall>k mk. map_of (scored distance g d) k = Some mk \<longrightarrow> mi \<le> mk + eps \<and> mj \<le> mk + eps)"
  then show "matcher distance threshold eps g d = Unknown"
    using matcher_tie [of i j distance g d mi mj eps threshold] assms(1) by blast
next
  assume "\<forall>k mk. map_of (scored distance g d) k = Some mk \<longrightarrow> threshold < mk"
  then show "matcher distance threshold eps g d = Unknown"
    using matcher_beyond [of distance g d threshold eps] assms(1) by blast
qed

theorem matcher_decisions_witness:
  "distinct (map fst [(''A'', [1 / 10, 7 / 10 :: real]), (''B'', [1 / 2])]) \<and> (0 :: real) \<le> 1 / 20 \<and>
   scored line_dist [(''A'', [1 / 10, 7 / 10]), (''B'', [1 / 2])] 0 = [(''A'', 1 / 10), (''B'', 1 / 2)] \<and>
   matcher line_dist (3 / 5) (1 / 20) [(''A'', [1 / 10, 7 / 10]), (''B'', [1 / 2])] 0 = Known ''A'' \<and>
   matcher line_dist (3 / 5) (1 / 20) [(''A'', [1 / 2, 7 / 10]), (''B'', [51 / 100])] 0 = Unknown \<and>
   matcher line_dist (1 / 20) (1 / 20) [(''A'', [1 / 10, 7 / 10]), (''B'', [1 / 2])] 0 = Unknown"
proof -
  let ?g = "[(''A'', [1 / 10, 7 / 10 :: real]), (''B'', [1 / 2])]"
  let ?h = "[(''A'', [1 / 2, 7 / 10 :: real]), (''B'', [51 / 100])]"
  have dg: "distinct (map fst ?g)" and dh: "distinct (map fst ?h)" by simp_all
  have e: "(0 :: real) \<le> 1 / 20" by simp
  have sg: "scored line_dist ?g 0 = [(''A'', 1 / 10), (''B'', 1 / 2)]"
    by (simp add: scored_def identity_distance_def)
  have sh: "scored line_dist ?h 0 = [(''A'', 1 / 2), (''B'', 51 / 100)]"
    by (simp add: scored_def identity_distance_def)
  have one: "matcher line_dist (3 / 5) (1 / 20) ?g 0 = Known ''A''"
    using matcher_decisions [OF dg e, of line_dist 0 "3 / 5", THEN conjunct1, rule_format, of "''A''" "1 / 10"]
    by (simp add: sg)
  have two: "matcher line_dist (3 / 5) (1 / 20) ?h 0 = Unknown"
    using matcher_decisions [OF dh e, of line_dist 0 "3 / 5", THEN conjunct2, THEN conjunct1, rule_format,
        of "''A''" "''B''" "1 / 2" "51 / 100"]
    by (simp add: sh)
  have three: "matcher line_dist (1 / 20) (1 / 20) ?g 0 = Unknown"
    using matcher_decisions [OF dg e, of line_dist 0 "1 / 20", THEN conjunct2, THEN conjunct2]
    by (simp add: sg)
  from dg e sg one two three show ?thesis by (intro conjI)
qed

end
